theory Spec2Isabelle
  imports Main "HOL-Library.Sublist"
begin

section \<open>JavaScript values\<close>

text \<open>
  The handlers and the component test values for truthiness (\<^verbatim>\<open>while (nextToken)\<close>,
  \<^verbatim>\<open>limit && ...\<close>, \<^verbatim>\<open>if (!selectedLogGroup)\<close>). A value of type
  \<^verbatim>\<open>string | undefined\<close> or \<^verbatim>\<open>string | null\<close> is a \<open>string option\<close>, falsy when it is
  missing or the empty string; a number that may be missing is an \<open>int option\<close>, falsy when
  it is missing or zero. The fields of a request body are taken at the types the client
  sends them with (strings and integers).
\<close>

definition truthy_string :: "string option \<Rightarrow> bool" where
  "truthy_string v = (case v of None \<Rightarrow> False | Some s \<Rightarrow> s \<noteq> [])"

definition truthy_number :: "int option \<Rightarrow> bool" where
  "truthy_number v = (case v of None \<Rightarrow> False | Some n \<Rightarrow> n \<noteq> 0)"

section \<open>app/api/cloudwatch/route.ts\<close>

subsection \<open>Client and error mapping\<close>

record env =
  region :: "string option"
  accessKeyId :: "string option"
  secretAccessKey :: "string option"

text \<open>
  A thrown value is an object with an optional \<^verbatim>\<open>name\<close> and an optional \<^verbatim>\<open>__type\<close>, or
  anything else.
\<close>

datatype thrown = ErrorObject "string option" "string option" | OtherThrown

definition getClient :: "env \<Rightarrow> thrown + unit" where
  "getClient e =
     (if \<not> truthy_string (region e) \<or> \<not> truthy_string (accessKeyId e)
         \<or> \<not> truthy_string (secretAccessKey e)
      then Inl (ErrorObject (Some ''Error'') None)
      else Inr ())"

fun getFriendlyAWSError :: "thrown \<Rightarrow> string option" where
  "getFriendlyAWSError (ErrorObject name type) =
     (if name = Some ''UnrecognizedClientException''
         \<or> type = Some ''UnrecognizedClientException''
         \<or> name = Some ''InvalidSignatureException''
         \<or> type = Some ''InvalidSignatureException''
      then Some ''AWS credentials are invalid. Please check your configuration.''
      else if name = Some ''AccessDeniedException'' \<or> type = Some ''AccessDeniedException''
      then Some ''Access denied. Please check your AWS permissions.''
      else None)"
| "getFriendlyAWSError OtherThrown = None"

text \<open>
  \<^verbatim>\<open>NextResponse.json(body)\<close> with status 200, or \<^verbatim>\<open>NextResponse.json({ error }, { status })\<close>.
\<close>

datatype 'a NextResponse = JsonOk 'a | JsonError string nat

definition on_catch :: "string \<Rightarrow> thrown \<Rightarrow> 'a NextResponse" where
  "on_catch fallback err =
     (case getFriendlyAWSError err of
        Some friendly \<Rightarrow> JsonError friendly 401
      | None \<Rightarrow> JsonError fallback 500)"

subsection \<open>GET: log groups\<close>

record DescribeLogGroupsCommand =
  dlg_limit :: nat
  dlg_nextToken :: "string option"

record 'g DescribeLogGroupsCommandOutput =
  out_logGroups :: "'g list option"
  out_nextToken :: "string option"

text \<open>
  The backend is a state machine: \<open>send b cmd\<close> answers the command in backend state \<open>b\<close>
  with a failure or an output, and gives the next backend state. The loop of \<^verbatim>\<open>GET\<close> is
  the recursion below; it may run forever, which is the value \<open>None\<close>. Next to the
  handler's own variables it records the commands it has sent.
\<close>

partial_function (option) GET_loop ::
  "('b \<Rightarrow> DescribeLogGroupsCommand \<Rightarrow> (thrown + 'g DescribeLogGroupsCommandOutput) \<times> 'b)
   \<Rightarrow> 'b \<Rightarrow> 'g list \<Rightarrow> string option \<Rightarrow> DescribeLogGroupsCommand list
   \<Rightarrow> ((thrown + 'g list) \<times> DescribeLogGroupsCommand list) option"
where
  "GET_loop send b logGroups nextToken sent =
     (let cmd = \<lparr>dlg_limit = 50, dlg_nextToken = nextToken\<rparr> in
      case send b cmd of
        (Inl err, b') \<Rightarrow> Some (Inl err, sent @ [cmd])
      | (Inr data, b') \<Rightarrow>
          (let logGroups' = logGroups @ (case out_logGroups data of None \<Rightarrow> [] | Some gs \<Rightarrow> gs);
               nextToken' = out_nextToken data
           in if truthy_string nextToken'
              then GET_loop send b' logGroups' nextToken' (sent @ [cmd])
              else Some (Inr logGroups', sent @ [cmd])))"

declare GET_loop.simps [code]

definition GET ::
  "env \<Rightarrow> ('b \<Rightarrow> DescribeLogGroupsCommand \<Rightarrow> (thrown + 'g DescribeLogGroupsCommandOutput) \<times> 'b)
   \<Rightarrow> 'b \<Rightarrow> ('g list NextResponse \<times> DescribeLogGroupsCommand list) option"
where
  "GET e send b =
     (case getClient e of
        Inl err \<Rightarrow> Some (on_catch ''Failed to fetch log groups'' err, [])
      | Inr client \<Rightarrow>
          (case GET_loop send b [] None [] of
             None \<Rightarrow> None
           | Some (Inl err, sent) \<Rightarrow> Some (on_catch ''Failed to fetch log groups'' err, sent)
           | Some (Inr logGroups, sent) \<Rightarrow> Some (JsonOk logGroups, sent)))"

subsection \<open>POST: search\<close>

record search_body =
  body_logGroupName :: "string option"
  body_logStreamName :: "string option"
  body_filterPattern :: "string option"
  body_startTime :: "int option"
  body_endTime :: "int option"
  body_limit :: "int option"

record FilterLogEventsCommandInput =
  fle_logGroupName :: "string option"
  fle_limit :: int
  fle_logStreamNames :: "string list option"
  fle_filterPattern :: "string option"
  fle_startTime :: "int option"
  fle_endTime :: "int option"

text \<open>\<^verbatim>\<open>limit && limit <= 10000 ? limit : 100\<close>\<close>

definition POST_limit :: "int option \<Rightarrow> int" where
  "POST_limit limit =
     (case limit of
        None \<Rightarrow> 100
      | Some l \<Rightarrow> if truthy_number (Some l) \<and> l \<le> 10000 then l else 100)"

text \<open>
  A spread \<^verbatim>\<open>...(v && { k: v })\<close> adds the key only when \<open>v\<close> is truthy.
\<close>

definition POST_params :: "search_body \<Rightarrow> FilterLogEventsCommandInput" where
  "POST_params body =
     \<lparr> fle_logGroupName = body_logGroupName body,
       fle_limit = POST_limit (body_limit body),
       fle_logStreamNames =
         (if truthy_string (body_logStreamName body)
          then map_option (\<lambda>s. [s]) (body_logStreamName body) else None),
       fle_filterPattern =
         (if truthy_string (body_filterPattern body) then body_filterPattern body else None),
       fle_startTime =
         (if truthy_number (body_startTime body) then body_startTime body else None),
       fle_endTime =
         (if truthy_number (body_endTime body) then body_endTime body else None) \<rparr>"

definition POST ::
  "env \<Rightarrow> search_body \<Rightarrow> ('b \<Rightarrow> FilterLogEventsCommandInput \<Rightarrow> (thrown + 'e list option) \<times> 'b)
   \<Rightarrow> 'b \<Rightarrow> 'e list NextResponse \<times> FilterLogEventsCommandInput list"
where
  "POST e body send b =
     (case getClient e of
        Inl err \<Rightarrow> (on_catch ''Failed to search logs'' err, [])
      | Inr client \<Rightarrow>
          (let params = POST_params body in
           case fst (send b params) of
             Inl err \<Rightarrow> (on_catch ''Failed to search logs'' err, [params])
           | Inr events \<Rightarrow>
               (JsonOk (case events of None \<Rightarrow> [] | Some es \<Rightarrow> es), [params])))"

subsection \<open>PUT: log streams of a group\<close>

record DescribeLogStreamsCommand =
  dls_logGroupName :: "string option"
  dls_limit :: nat

record 's DescribeLogStreamsCommandOutput =
  out_logStreams :: "'s list option"
  out_streamsNextToken :: "string option"

definition PUT ::
  "env \<Rightarrow> string option
   \<Rightarrow> ('b \<Rightarrow> DescribeLogStreamsCommand \<Rightarrow> (thrown + 's DescribeLogStreamsCommandOutput) \<times> 'b)
   \<Rightarrow> 'b \<Rightarrow> 's list NextResponse \<times> DescribeLogStreamsCommand list"
where
  "PUT e logGroupName send b =
     (case getClient e of
        Inl err \<Rightarrow> (on_catch ''Failed to fetch log streams'' err, [])
      | Inr client \<Rightarrow>
          (let cmd = \<lparr>dls_logGroupName = logGroupName, dls_limit = 50\<rparr> in
           case fst (send b cmd) of
             Inl err \<Rightarrow> (on_catch ''Failed to fetch log streams'' err, [cmd])
           | Inr data \<Rightarrow>
               (JsonOk (case out_logStreams data of None \<Rightarrow> [] | Some ss \<Rightarrow> ss), [cmd])))"

text \<open>
  Paged sources for \<^verbatim>\<open>GET\<close>. \<open>emits send b tok ps\<close>: asked with token \<open>tok\<close> in state
  \<open>b\<close>, and from then on with the token of the page before, the backend answers with the
  pages \<open>ps\<close> one after the other; every page but the last carries a token the loop goes
  on with, the last does not. \<open>emits_spec\<close> is the same with "carries a token" read as
  "the token is present".
\<close>

definition page_items :: "'g DescribeLogGroupsCommandOutput \<Rightarrow> 'g list" where
  "page_items p = (case out_logGroups p of None \<Rightarrow> [] | Some gs \<Rightarrow> gs)"

definition group_command :: "string option \<Rightarrow> DescribeLogGroupsCommand" where
  "group_command tok = \<lparr>dlg_limit = 50, dlg_nextToken = tok\<rparr>"

fun emits ::
  "('b \<Rightarrow> DescribeLogGroupsCommand \<Rightarrow> (thrown + 'g DescribeLogGroupsCommandOutput) \<times> 'b)
   \<Rightarrow> 'b \<Rightarrow> string option \<Rightarrow> 'g DescribeLogGroupsCommandOutput list \<Rightarrow> bool"
where
  "emits send b tok [] = False"
| "emits send b tok [p] =
     (fst (send b (group_command tok)) = Inr p \<and> \<not> truthy_string (out_nextToken p))"
| "emits send b tok (p # q # ps) =
     (fst (send b (group_command tok)) = Inr p \<and> truthy_string (out_nextToken p)
      \<and> emits send (snd (send b (group_command tok))) (out_nextToken p) (q # ps))"

fun emits_spec ::
  "('b \<Rightarrow> DescribeLogGroupsCommand \<Rightarrow> (thrown + 'g DescribeLogGroupsCommandOutput) \<times> 'b)
   \<Rightarrow> 'b \<Rightarrow> string option \<Rightarrow> 'g DescribeLogGroupsCommandOutput list \<Rightarrow> bool"
where
  "emits_spec send b tok [] = False"
| "emits_spec send b tok [p] =
     (fst (send b (group_command tok)) = Inr p \<and> out_nextToken p = None)"
| "emits_spec send b tok (p # q # ps) =
     (fst (send b (group_command tok)) = Inr p \<and> out_nextToken p \<noteq> None
      \<and> emits_spec send (snd (send b (group_command tok))) (out_nextToken p) (q # ps))"

text \<open>A backend that answers each token from a table, for concrete runs.\<close>

definition keyed_backend ::
  "(string option \<times> 'g DescribeLogGroupsCommandOutput) list
   \<Rightarrow> unit \<Rightarrow> DescribeLogGroupsCommand \<Rightarrow> (thrown + 'g DescribeLogGroupsCommandOutput) \<times> unit"
where
  "keyed_backend table b cmd =
     (case map_of table (dlg_nextToken cmd) of
        None \<Rightarrow> (Inl OtherThrown, ())
      | Some p \<Rightarrow> (Inr p, ()))"

definition env_ok :: env where
  "env_ok = \<lparr>region = Some ''us-east-1'', accessKeyId = Some ''id'', secretAccessKey = Some ''key''\<rparr>"

definition two_pages :: "(string option \<times> nat DescribeLogGroupsCommandOutput) list" where
  "two_pages =
     [(None, \<lparr>out_logGroups = Some [1, 2], out_nextToken = Some ''t1''\<rparr>),
      (Some ''t1'', \<lparr>out_logGroups = Some [3], out_nextToken = None\<rparr>)]"

definition empty_token_pages :: "(string option \<times> nat DescribeLogGroupsCommandOutput) list" where
  "empty_token_pages =
     [(None, \<lparr>out_logGroups = Some [1], out_nextToken = Some ''''\<rparr>),
      (Some '''', \<lparr>out_logGroups = Some [2], out_nextToken = None\<rparr>)]"

text \<open>
  A stream listing of two pages, for \<^verbatim>\<open>PUT\<close>: the backend answers the command (which
  carries no token) with the first page and a token for the second.
\<close>

definition stream_pages :: "nat DescribeLogStreamsCommandOutput list" where
  "stream_pages =
     [\<lparr>out_logStreams = Some [1, 2], out_streamsNextToken = Some ''t1''\<rparr>,
      \<lparr>out_logStreams = Some [3], out_streamsNextToken = None\<rparr>]"

definition stream_backend ::
  "unit \<Rightarrow> DescribeLogStreamsCommand \<Rightarrow> (thrown + nat DescribeLogStreamsCommandOutput) \<times> unit"
where
  "stream_backend b cmd = (Inr (stream_pages ! 0), ())"

text \<open>The effective limit as the specification words it: the range \<open>(1, 10000]\<close>.\<close>

definition spec_limit :: "int option \<Rightarrow> int" where
  "spec_limit limit =
     (case limit of
        None \<Rightarrow> 100
      | Some l \<Rightarrow> if 1 < l \<and> l \<le> 10000 then l else 100)"

definition body_example :: search_body where
  "body_example =
     \<lparr> body_logGroupName = Some ''/svc/a'', body_logStreamName = Some ''s1'',
       body_filterPattern = Some ''ERROR'', body_startTime = Some 1700000000000,
       body_endTime = Some 1700000360000, body_limit = Some 50 \<rparr>"

section \<open>app/components/CloudWatchLogViewer.tsx\<close>

text \<open>
  The component \<^verbatim>\<open>CloudWatchLogViewer\<close>; its source text is the second part of the file
  \<^verbatim>\<open>app/components/AdvancedSearch.tsx\<close>.
\<close>

subsection \<open>Component state\<close>

record LogEvent =
  ev_timestamp :: int
  ev_message :: string
  ev_logStreamName :: string
  ev_eventId :: string
  ev_ingestionTime :: int

record 'c LogGroup =
  logGroupName :: "'c list"
  lg_creationTime :: int
  lg_retentionInDays :: "int option"
  lg_storedBytes :: "int option"

record 'c LogStream =
  logStreamName :: "'c list"
  ls_creationTime :: int
  ls_lastEventTime :: "int option"
  ls_lastIngestionTime :: "int option"
  ls_storedBytes :: "int option"

text \<open>
  The names of groups and streams are strings over a type \<open>'c\<close> of code units, which the
  filters below leave open; the component state holds them over \<open>char\<close>. One field for each
  \<^verbatim>\<open>useState\<close> of the component, with its initial value below.
\<close>

record viewer =
  logGroups :: "char LogGroup list"
  logStreams :: "char LogStream list"
  selectedLogGroup :: "string option"
  selectedLogStream :: "string option"
  filterPattern :: string
  startTime :: string
  endTime :: string
  logEvents :: "LogEvent list"
  loading :: bool
  error :: string
  logGroupQuery :: string
  logStreamQuery :: string
  logGroupOpen :: bool
  logGroupActiveIndex :: int
  logStreamOpen :: bool
  logStreamActiveIndex :: int

definition initial_viewer :: viewer where
  "initial_viewer =
     \<lparr> logGroups = [], logStreams = [], selectedLogGroup = Some '''',
       selectedLogStream = Some '''', filterPattern = '''', startTime = '''', endTime = '''',
       logEvents = [], loading = False, error = '''', logGroupQuery = '''',
       logStreamQuery = '''', logGroupOpen = False, logGroupActiveIndex = 0,
       logStreamOpen = False, logStreamActiveIndex = 0 \<rparr>"

subsection \<open>Requests and their completions\<close>

text \<open>
  An asynchronous function of the component is split at its \<^verbatim>\<open>await\<close>: the part before
  it gives the new state and the requests it sends (none or one), the part after it takes
  what \<^verbatim>\<open>fetch\<close> and \<^verbatim>\<open>response.json()\<close> gave. That is a response with
  \<^verbatim>\<open>response.ok\<close> and its payload, a response that is not ok with its optional
  \<^verbatim>\<open>error\<close> field, or an exception with its message.
\<close>

datatype request =
    GroupsRequest
  | StreamsRequest string
  | SearchRequest search_body

datatype 'a fetched = Ok200 'a | NotOk "string option" | Rejected string

datatype reply =
    GroupsReply "char LogGroup list fetched"
  | StreamsReply "char LogStream list fetched"
  | EventsReply "LogEvent list fetched"

text \<open>\<^verbatim>\<open>value || fallback\<close> on a string that may be missing.\<close>

definition or_else :: "string option \<Rightarrow> string \<Rightarrow> string" where
  "or_else v fallback = (case v of None \<Rightarrow> fallback | Some s \<Rightarrow> if s \<noteq> [] then s else fallback)"

definition fetchLogGroups_start :: "viewer \<Rightarrow> viewer \<times> request list" where
  "fetchLogGroups_start st = (st\<lparr>loading := True, error := ''''\<rparr>, [GroupsRequest])"

definition fetchLogGroups_done :: "char LogGroup list fetched \<Rightarrow> viewer \<Rightarrow> viewer" where
  "fetchLogGroups_done r st =
     (case r of
        Ok200 groups \<Rightarrow> st\<lparr>logGroups := groups, loading := False\<rparr>
      | NotOk e \<Rightarrow> st\<lparr>error := or_else e ''Failed to fetch log groups'', loading := False\<rparr>
      | Rejected message \<Rightarrow> st\<lparr>error := message, loading := False\<rparr>)"

definition fetchLogStreams_start :: "string \<Rightarrow> viewer \<Rightarrow> viewer \<times> request list" where
  "fetchLogStreams_start name st =
     (if name = [] then (st, [])
      else (st\<lparr>loading := True, error := ''''\<rparr>, [StreamsRequest name]))"

definition fetchLogStreams_done :: "char LogStream list fetched \<Rightarrow> viewer \<Rightarrow> viewer" where
  "fetchLogStreams_done r st =
     (case r of
        Ok200 streams \<Rightarrow> st\<lparr>logStreams := streams, loading := False\<rparr>
      | NotOk e \<Rightarrow> st\<lparr>error := or_else e ''Failed to fetch log streams'', loading := False\<rparr>
      | Rejected message \<Rightarrow> st\<lparr>error := message, loading := False\<rparr>)"

text \<open>
  \<^verbatim>\<open>new Date(s).getTime()\<close> is a parameter \<open>getTime\<close>: the number of the date, or nothing
  where the date does not parse (the \<^verbatim>\<open>NaN\<close> that \<^verbatim>\<open>JSON.stringify\<close> writes as
  \<^verbatim>\<open>null\<close>).
\<close>

definition searchParams :: "(string \<Rightarrow> int option) \<Rightarrow> viewer \<Rightarrow> search_body" where
  "searchParams getTime st =
     \<lparr> body_logGroupName = selectedLogGroup st,
       body_logStreamName =
         (if truthy_string (selectedLogStream st) then selectedLogStream st else None),
       body_filterPattern = (if filterPattern st \<noteq> [] then Some (filterPattern st) else None),
       body_startTime = (if startTime st \<noteq> [] then getTime (startTime st) else None),
       body_endTime = (if endTime st \<noteq> [] then getTime (endTime st) else None),
       body_limit = Some 100 \<rparr>"

definition searchLogs_start :: "(string \<Rightarrow> int option) \<Rightarrow> viewer \<Rightarrow> viewer \<times> request list" where
  "searchLogs_start getTime st =
     (if \<not> truthy_string (selectedLogGroup st)
      then (st\<lparr>error := ''Please select a log group''\<rparr>, [])
      else (st\<lparr>loading := True, error := ''''\<rparr>, [SearchRequest (searchParams getTime st)]))"

definition searchLogs_done :: "LogEvent list fetched \<Rightarrow> viewer \<Rightarrow> viewer" where
  "searchLogs_done r st =
     (case r of
        Ok200 events \<Rightarrow> st\<lparr>logEvents := events, loading := False\<rparr>
      | NotOk e \<Rightarrow> st\<lparr>error := or_else e ''Failed to search logs'', loading := False\<rparr>
      | Rejected message \<Rightarrow> st\<lparr>error := message, loading := False\<rparr>)"

definition clearFilters :: "viewer \<Rightarrow> viewer" where
  "clearFilters st =
     st\<lparr> selectedLogGroup := Some '''', selectedLogStream := Some '''', filterPattern := '''',
         startTime := '''', endTime := '''', logEvents := [], logGroupQuery := '''',
         logStreamQuery := '''', error := '''' \<rparr>"

subsection \<open>The effect of a change of the selected group\<close>

text \<open>
  The body of the effect with dependency \<^verbatim>\<open>[selectedLogGroup]\<close>, and the selection of a
  group in the combobox (\<^verbatim>\<open>setSelectedLogGroup(value || "")\<close>) followed by the effect, which
  runs when the selected group is not the one of the render before.
\<close>

definition logGroupEffect :: "viewer \<Rightarrow> viewer \<times> request list" where
  "logGroupEffect st =
     (if truthy_string (selectedLogGroup st)
      then fetchLogStreams_start (or_else (selectedLogGroup st) '''') st
      else (st\<lparr>logStreams := [], selectedLogStream := Some ''''\<rparr>, []))"

definition after_group_change :: "viewer \<Rightarrow> viewer \<Rightarrow> viewer \<times> request list" where
  "after_group_change prev st =
     (if selectedLogGroup st = selectedLogGroup prev then (st, []) else logGroupEffect st)"

definition selectLogGroup :: "string option \<Rightarrow> viewer \<Rightarrow> viewer \<times> request list" where
  "selectLogGroup v st = after_group_change st (st\<lparr>selectedLogGroup := Some (or_else v '''')\<rparr>)"

definition selectLogStream :: "string option \<Rightarrow> viewer \<Rightarrow> viewer" where
  "selectLogStream v st = st\<lparr>selectedLogStream := Some (or_else v '''')\<rparr>"

subsection \<open>Interleavings\<close>

text \<open>
  The component and the requests in flight. An action is something the user does or the
  arrival of the reply to the request at a position of the list of requests in flight;
  replies arrive in any order. The submit button is disabled while \<^verbatim>\<open>loading\<close> is set or
  no group is selected, and the stream combobox while no group is selected.
\<close>

record world =
  view :: viewer
  inflight :: "request list"

datatype action =
    Mount
  | ChangeLogGroup "string option"
  | ChangeLogStream "string option"
  | SetFilterPattern string
  | SetStartTime string
  | SetEndTime string
  | SubmitForm
  | ClickClearFilters
  | Deliver nat reply

definition issue :: "world \<Rightarrow> viewer \<times> request list \<Rightarrow> world" where
  "issue w r = \<lparr>view = fst r, inflight = inflight w @ snd r\<rparr>"

definition complete :: "request \<Rightarrow> reply \<Rightarrow> viewer \<Rightarrow> viewer option" where
  "complete rq rp st =
     (case (rq, rp) of
        (GroupsRequest, GroupsReply r) \<Rightarrow> Some (fetchLogGroups_done r st)
      | (StreamsRequest name, StreamsReply r) \<Rightarrow> Some (fetchLogStreams_done r st)
      | (SearchRequest body, EventsReply r) \<Rightarrow> Some (searchLogs_done r st)
      | _ \<Rightarrow> None)"

fun step :: "(string \<Rightarrow> int option) \<Rightarrow> world \<Rightarrow> action \<Rightarrow> world" where
  "step getTime w Mount =
     (let w1 = issue w (fetchLogGroups_start (view w)) in issue w1 (logGroupEffect (view w1)))"
| "step getTime w (ChangeLogGroup v) = issue w (selectLogGroup v (view w))"
| "step getTime w (ChangeLogStream v) =
     (if \<not> truthy_string (selectedLogGroup (view w)) then w
      else w\<lparr>view := selectLogStream v (view w)\<rparr>)"
| "step getTime w (SetFilterPattern s) = w\<lparr>view := (view w)\<lparr>filterPattern := s\<rparr>\<rparr>"
| "step getTime w (SetStartTime s) = w\<lparr>view := (view w)\<lparr>startTime := s\<rparr>\<rparr>"
| "step getTime w (SetEndTime s) = w\<lparr>view := (view w)\<lparr>endTime := s\<rparr>\<rparr>"
| "step getTime w SubmitForm =
     (if loading (view w) \<or> \<not> truthy_string (selectedLogGroup (view w)) then w
      else issue w (searchLogs_start getTime (view w)))"
| "step getTime w ClickClearFilters =
     issue w (after_group_change (view w) (clearFilters (view w)))"
| "step getTime w (Deliver i rp) =
     (if i < length (inflight w)
      then (case complete (inflight w ! i) rp (view w) of
              None \<Rightarrow> w
            | Some st \<Rightarrow> \<lparr>view = st, inflight = take i (inflight w) @ drop (Suc i) (inflight w)\<rparr>)
      else w)"

definition run :: "(string \<Rightarrow> int option) \<Rightarrow> world \<Rightarrow> action list \<Rightarrow> world" where
  "run getTime w acts = foldl (step getTime) w acts"

definition initial_world :: world where
  "initial_world = \<lparr>view = initial_viewer, inflight = []\<rparr>"

subsection \<open>Filtered lists of the dropdowns\<close>










definition group_named :: "'c list \<Rightarrow> 'c LogGroup" where
  "group_named n =
     \<lparr>logGroupName = n, lg_creationTime = 0, lg_retentionInDays = None, lg_storedBytes = None\<rparr>"

definition stream_named :: "'c list \<Rightarrow> 'c LogStream" where
  "stream_named n =
     \<lparr>logStreamName = n, ls_creationTime = 0, ls_lastEventTime = None,
      ls_lastIngestionTime = None, ls_storedBytes = None\<rparr>"




subsection \<open>Keyboard navigation and scrolling of the dropdowns\<close>

text \<open>
  \<open>count\<close> is \<^verbatim>\<open>filteredLogGroups.length\<close> (or that of the streams) in the render whose
  handler or effect runs, \<open>element\<close> says whether the scroll container's ref is set. The
  effect gives the argument of the call of \<^verbatim>\<open>scrollToIndex\<close> it makes, if it makes one; it
  runs after a render in which one of its dependencies differs from the render before.
\<close>

definition onKeyDownLogGroup :: "string \<Rightarrow> nat \<Rightarrow> viewer \<Rightarrow> viewer" where
  "onKeyDownLogGroup key count st =
     (if key = ''ArrowDown''
      then st\<lparr>logGroupOpen := True,
              logGroupActiveIndex := min (logGroupActiveIndex st + 1) (int count - 1)\<rparr>
      else if key = ''ArrowUp''
      then st\<lparr>logGroupOpen := True,
              logGroupActiveIndex := max (logGroupActiveIndex st - 1) 0\<rparr>
      else st)"

definition onKeyDownLogStream :: "string \<Rightarrow> nat \<Rightarrow> viewer \<Rightarrow> viewer" where
  "onKeyDownLogStream key count st =
     (if key = ''ArrowDown''
      then st\<lparr>logStreamOpen := True,
              logStreamActiveIndex := min (logStreamActiveIndex st + 1) (int count - 1)\<rparr>
      else if key = ''ArrowUp''
      then st\<lparr>logStreamOpen := True,
              logStreamActiveIndex := max (logStreamActiveIndex st - 1) 0\<rparr>
      else st)"

definition scrollLogGroupEffect :: "bool \<Rightarrow> nat \<Rightarrow> viewer \<Rightarrow> int option" where
  "scrollLogGroupEffect element count st =
     (if logGroupOpen st \<and> element \<and> count > 0 then Some (logGroupActiveIndex st) else None)"

definition scrollLogStreamEffect :: "bool \<Rightarrow> nat \<Rightarrow> viewer \<Rightarrow> int option" where
  "scrollLogStreamEffect element count st =
     (if logStreamOpen st \<and> element \<and> count > 0 then Some (logStreamActiveIndex st) else None)"

definition scrollLogGroupOnRender :: "bool \<Rightarrow> nat \<times> viewer \<Rightarrow> nat \<times> viewer \<Rightarrow> int option" where
  "scrollLogGroupOnRender element prev cur =
     (if logGroupOpen (snd cur) = logGroupOpen (snd prev)
         \<and> logGroupActiveIndex (snd cur) = logGroupActiveIndex (snd prev)
         \<and> fst cur = fst prev
      then None
      else scrollLogGroupEffect element (fst cur) (snd cur))"

definition scrollLogStreamOnRender :: "bool \<Rightarrow> nat \<times> viewer \<Rightarrow> nat \<times> viewer \<Rightarrow> int option" where
  "scrollLogStreamOnRender element prev cur =
     (if logStreamOpen (snd cur) = logStreamOpen (snd prev)
         \<and> logStreamActiveIndex (snd cur) = logStreamActiveIndex (snd prev)
         \<and> fst cur = fst prev
      then None
      else scrollLogStreamEffect element (fst cur) (snd cur))"

text \<open>Five presses of the down arrow in a list of ten groups.\<close>

definition five_down :: viewer where
  "five_down = foldl (\<lambda>st key. onKeyDownLogGroup key 10 st) initial_viewer
                 (replicate 5 ''ArrowDown'')"

section \<open>app/components/utils.ts: useDebounce\<close>

text \<open>
  The state of one use of the hook: the \<^verbatim>\<open>value\<close> of the last render, the debounced
  value, and the pending timeout with the earliest time at which it may run and the value
  its callback captured. Times are in milliseconds. Recorded next to them: the time of the
  render that set the pending timeout, and every call of \<^verbatim>\<open>setDebouncedValue\<close> with the
  time it ran at. The delay is the same in every render (both uses pass 300), so the
  effect runs again exactly when the value differs from that of the render before: it
  clears the pending timeout and sets a new one. A timeout runs no earlier than its delay
  after it was set.
\<close>

record debounce =
  db_value :: string
  debouncedValue :: string
  db_timer :: "(nat \<times> string) option"
  db_since :: nat
  db_settled :: "(nat \<times> string) list"

definition useDebounce_mount :: "nat \<Rightarrow> string \<Rightarrow> nat \<Rightarrow> debounce" where
  "useDebounce_mount now v delay =
     \<lparr>db_value = v, debouncedValue = v, db_timer = Some (now + delay, v), db_since = now,
      db_settled = []\<rparr>"

definition useDebounce_render :: "nat \<Rightarrow> string \<Rightarrow> nat \<Rightarrow> debounce \<Rightarrow> debounce" where
  "useDebounce_render now v delay st =
     (if v = db_value st then st
      else st\<lparr>db_value := v, db_timer := Some (now + delay, v), db_since := now\<rparr>)"

definition useDebounce_timeout :: "nat \<Rightarrow> debounce \<Rightarrow> debounce" where
  "useDebounce_timeout now st =
     (case db_timer st of
        None \<Rightarrow> st
      | Some (due, v) \<Rightarrow>
          if due \<le> now
          then st\<lparr>debouncedValue := v, db_timer := None,
                  db_settled := db_settled st @ [(now, v)]\<rparr>
          else st)"

definition useDebounce_unmount :: "debounce \<Rightarrow> debounce" where
  "useDebounce_unmount st = st\<lparr>db_timer := None\<rparr>"

datatype db_event = Input nat string | Timer nat

fun db_step :: "nat \<Rightarrow> debounce \<Rightarrow> db_event \<Rightarrow> debounce" where
  "db_step delay st (Input t v) = useDebounce_render t v delay st"
| "db_step delay st (Timer t) = useDebounce_timeout t st"

definition db_run :: "nat \<Rightarrow> debounce \<Rightarrow> db_event list \<Rightarrow> debounce" where
  "db_run delay st evs = foldl (db_step delay) st evs"

text \<open>
  \<open>burst d now t v evs\<close>: the events \<open>evs\<close> come in the order of their times, from time
  \<open>now\<close> on, and every input is a new value less than \<open>d\<close> after the input before it; \<open>t\<close>
  and \<open>v\<close> are the time and the value of the input before. \<open>last_input\<close> is the last raw
  input, \<open>timers_from\<close> the times from a given time on at which timers get to run.
\<close>

fun burst :: "nat \<Rightarrow> nat \<Rightarrow> nat \<Rightarrow> string \<Rightarrow> db_event list \<Rightarrow> bool" where
  "burst d now t v [] = True"
| "burst d now t v (Input s u # evs) = (now \<le> s \<and> s < t + d \<and> u \<noteq> v \<and> burst d s s u evs)"
| "burst d now t v (Timer s # evs) = (now \<le> s \<and> burst d s t v evs)"

fun last_input :: "nat \<times> string \<Rightarrow> db_event list \<Rightarrow> nat \<times> string" where
  "last_input tv [] = tv"
| "last_input tv (Input s u # evs) = last_input (s, u) evs"
| "last_input tv (Timer s # evs) = last_input tv evs"

fun timers_from :: "nat \<Rightarrow> db_event list \<Rightarrow> nat list" where
  "timers_from t [] = []"
| "timers_from t (Input s u # evs) = timers_from t evs"
| "timers_from t (Timer s # evs) = (if t \<le> s then s # timers_from t evs else timers_from t evs)"

definition typing_abc :: "db_event list" where
  "typing_abc = [Input 1100 ''ab'', Timer 1150, Input 1200 ''abc'', Timer 1400, Timer 1500, Timer 1600]"

text \<open>
  \<open>settles_current d st\<close>: a pending timeout holds the value of the last render and is due
  \<open>d\<close> after the render that set it.
\<close>

definition settles_current :: "nat \<Rightarrow> debounce \<Rightarrow> bool" where
  "settles_current d st =
     (case db_timer st of
        None \<Rightarrow> True
      | Some (due, u) \<Rightarrow> u = db_value st \<and> due = db_since st + d)"

text \<open>
  \<open>returns_settled v0 st\<close>: the value the hook returns is the value settled last, or the
  initial value \<open>v0\<close> while nothing has been settled.
\<close>

definition returns_settled :: "string \<Rightarrow> debounce \<Rightarrow> bool" where
  "returns_settled v0 st =
     (debouncedValue st = (if db_settled st = [] then v0 else snd (last (db_settled st))))"

section \<open>Concrete runs of the component\<close>

definition event_A :: LogEvent where
  "event_A = \<lparr>ev_timestamp = 1, ev_message = ''first'', ev_logStreamName = ''s'',
              ev_eventId = ''a'', ev_ingestionTime = 1\<rparr>"

definition event_B :: LogEvent where
  "event_B = \<lparr>ev_timestamp = 2, ev_message = ''second'', ev_logStreamName = ''s'',
              ev_eventId = ''b'', ev_ingestionTime = 2\<rparr>"

definition no_dates :: "string \<Rightarrow> int option" where
  "no_dates s = None"

text \<open>
  Two searches in flight at once. The first is submitted for group \<^verbatim>\<open>/svc/a\<close> with pattern
  \<^verbatim>\<open>A\<close>; while it is in flight the user selects \<^verbatim>\<open>/svc/b\<close>, and the arrival of that
  group's streams resets \<^verbatim>\<open>loading\<close>, which enables the submit button again; the second
  search is submitted with pattern \<^verbatim>\<open>B\<close>.
\<close>

definition issue_A_then_B :: "action list" where
  "issue_A_then_B =
     [Mount,
      Deliver 0 (GroupsReply (Ok200 [group_named ''/svc/a'', group_named ''/svc/b''])),
      ChangeLogGroup (Some ''/svc/a''),
      Deliver 0 (StreamsReply (Ok200 [])),
      SetFilterPattern ''A'',
      SubmitForm,
      ChangeLogGroup (Some ''/svc/b''),
      Deliver 1 (StreamsReply (Ok200 [])),
      SetFilterPattern ''B'',
      SubmitForm]"

definition search_A :: search_body where
  "search_A =
     \<lparr> body_logGroupName = Some ''/svc/a'', body_logStreamName = None,
       body_filterPattern = Some ''A'', body_startTime = None,
       body_endTime = None, body_limit = Some 100 \<rparr>"

definition search_B :: search_body where
  "search_B =
     \<lparr> body_logGroupName = Some ''/svc/b'', body_logStreamName = None,
       body_filterPattern = Some ''B'', body_startTime = None,
       body_endTime = None, body_limit = Some 100 \<rparr>"

definition B_then_A :: "action list" where
  "B_then_A =
     [Deliver 1 (EventsReply (Ok200 [event_B])), Deliver 0 (EventsReply (Ok200 [event_A]))]"

text \<open>A finished search in group \<^verbatim>\<open>/svc/a\<close>, stream \<^verbatim>\<open>s\<close>, with one event found.\<close>

definition searched_group_a :: "action list" where
  "searched_group_a =
     [Mount,
      Deliver 0 (GroupsReply (Ok200 [group_named ''/svc/a'', group_named ''/svc/b''])),
      ChangeLogGroup (Some ''/svc/a''),
      Deliver 0 (StreamsReply (Ok200 [stream_named ''s''])),
      ChangeLogStream (Some ''s''),
      SubmitForm,
      Deliver 0 (EventsReply (Ok200 [event_A]))]"

section \<open>Properties of the route handlers\<close>

lemma getClient_env_ok: "getClient env_ok = Inr ()"
  by (simp add: getClient_def env_ok_def truthy_string_def)

subsection \<open>GET aggregates the pages of the group listing\<close>

lemma GET_loop_emits:
  "emits send b tok ps \<Longrightarrow>
   GET_loop send b acc tok sent =
     Some (Inr (acc @ concat (map page_items ps)),
           sent @ map group_command (tok # map out_nextToken (butlast ps)))"
proof (induction send b tok ps arbitrary: acc sent rule: emits.induct)
  case (1 send b tok)
  then show ?case by simp
next
  case (2 send b tok p)
  then show ?case
    by (subst GET_loop.simps)
       (auto simp: group_command_def page_items_def Let_def split: prod.splits sum.splits)
next
  case (3 send b tok p q ps)
  obtain b' where s: "send b (group_command tok) = (Inr p, b')"
    using "3.prems" by (cases "send b (group_command tok)") auto
  have e: "emits send b' (out_nextToken p) (q # ps)"
    using "3.prems" s by simp
  have t: "truthy_string (out_nextToken p)" using "3.prems" by simp
  have "GET_loop send b acc tok sent =
        GET_loop send b' (acc @ page_items p) (out_nextToken p) (sent @ [group_command tok])"
    using s t by (subst GET_loop.simps) (simp add: group_command_def page_items_def Let_def)
  also have "\<dots> = Some (Inr ((acc @ page_items p) @ concat (map page_items (q # ps))),
           (sent @ [group_command tok]) @
             map group_command (out_nextToken p # map out_nextToken (butlast (q # ps))))"
    using "3.IH"[of "acc @ page_items p" "sent @ [group_command tok]"] s e by simp
  finally show ?case by simp
qed

text \<open>
  C3, as the specification states it, fails: a page whose continuation token is present
  but is the empty string ends the loop of \<^verbatim>\<open>GET\<close>, since \<^verbatim>\<open>while (nextToken)\<close> tests the
  token's truthiness. The backend below emits two pages, only the second without a token;
  the handler sends one command and answers with the first page alone.
\<close>

theorem GET_empty_token_counterexample:
  "getClient env_ok = Inr ()
   \<and> emits_spec (keyed_backend empty_token_pages) () None (map snd empty_token_pages)
   \<and> concat (map page_items (map snd empty_token_pages)) = [1, 2]
   \<and> GET env_ok (keyed_backend empty_token_pages) () = Some (JsonOk [1], [group_command None])"
proof -
  have e: "emits_spec (keyed_backend empty_token_pages) () None (map snd empty_token_pages)"
    by (simp add: keyed_backend_def empty_token_pages_def group_command_def)
  have g: "GET_loop (keyed_backend empty_token_pages) () [] None [] =
             Some (Inr [1], [group_command None])"
    by (subst GET_loop.simps)
       (simp add: keyed_backend_def empty_token_pages_def group_command_def truthy_string_def)
  show ?thesis using getClient_env_ok e g
    by (simp add: GET_def empty_token_pages_def page_items_def)
qed

text \<open>
  C3, amended: for every backend that emits \<open>n \<ge> 1\<close> pages where every page but the last
  carries a non-empty continuation token and the last carries none (or an empty one),
  \<^verbatim>\<open>GET\<close> returns: it sends \<open>n\<close> commands, the first without a token and each later one
  with the token of the page before, and answers with the concatenation of the pages'
  items, in page order and in the order within each page.
\<close>

theorem GET_aggregates_all_pages:
  assumes "getClient e = Inr ()" and "emits send b None ps"
  shows "GET e send b =
           Some (JsonOk (concat (map page_items ps)),
                 map group_command (None # map out_nextToken (butlast ps)))"
  using assms GET_loop_emits[OF assms(2), of "[]" "[]"] by (simp add: GET_def)

theorem GET_aggregates_all_pages_witness:
  "getClient env_ok = Inr () \<and> emits (keyed_backend two_pages) () None (map snd two_pages)
   \<and> GET env_ok (keyed_backend two_pages) () =
       Some (JsonOk [1, 2, 3], [group_command None, group_command (Some ''t1'')])"
proof -
  have e: "emits (keyed_backend two_pages) () None (map snd two_pages)"
    by (simp add: keyed_backend_def two_pages_def group_command_def truthy_string_def)
  show ?thesis
    using getClient_env_ok e GET_aggregates_all_pages[OF getClient_env_ok e]
    by (simp add: two_pages_def page_items_def)
qed

subsection \<open>PUT asks for one page\<close>

lemma PUT_single_call: "length (snd (PUT e g send b)) \<le> 1"
  by (simp add: PUT_def Let_def split: sum.splits)

text \<open>
  C4: the stream listing is not aggregated. On a group whose listing has two pages,
  \<^verbatim>\<open>PUT\<close> sends one command, without looking at the continuation token of the answer, and
  responds with the streams of the first page: the stream of the second page is missing.
\<close>

theorem PUT_returns_first_page_only:
  "PUT env_ok (Some ''/svc/a'') stream_backend () =
     (JsonOk [1, 2], [\<lparr>dls_logGroupName = Some ''/svc/a'', dls_limit = 50\<rparr>])
   \<and> out_streamsNextToken (stream_pages ! 0) = Some ''t1''
   \<and> out_logStreams (stream_pages ! 1) = Some [3]"
  using getClient_env_ok by (simp add: PUT_def stream_backend_def stream_pages_def)

subsection \<open>POST: the limit and the optional fields\<close>

text \<open>
  C5, as the specification states it, fails: a limit of 1 lies outside \<open>(1, 10000]\<close> and
  is forwarded as 1, not as 100; and a negative limit is forwarded as it is.
\<close>

theorem POST_limit_counterexample:
  "fle_limit (POST_params (body_example\<lparr>body_limit := Some 1\<rparr>)) = 1
   \<and> spec_limit (Some 1) = 100
   \<and> fle_limit (POST_params (body_example\<lparr>body_limit := Some (- 5)\<rparr>)) = - 5
   \<and> spec_limit (Some (- 5)) = 100"
  by (simp add: POST_params_def POST_limit_def spec_limit_def truthy_number_def body_example_def)

text \<open>
  C5, amended: the limit forwarded to the backend is the supplied limit when that lies in
  \<open>[1, 10000]\<close>, and 100 when the limit is absent, zero or above 10000. (Negative limits are
  left out of the statement.)
\<close>

theorem POST_limit_effective:
  "fle_limit (POST_params body) = POST_limit (body_limit body)
   \<and> POST_limit None = 100
   \<and> (0 \<le> l \<longrightarrow> POST_limit (Some l) = (if 1 \<le> l \<and> l \<le> 10000 then l else 100))"
  by (simp add: POST_params_def POST_limit_def truthy_number_def)

theorem POST_limit_effective_witness:
  "(0::int) \<le> 50 \<and> fle_limit (POST_params body_example) = 50
   \<and> POST_limit (Some 0) = 100 \<and> POST_limit (Some 10001) = 100 \<and> POST_limit (Some 10000) = 10000
   \<and> POST_limit (Some 1) = 1"
  using POST_limit_effective[of body_example 50] POST_limit_effective[of body_example 0]
    POST_limit_effective[of body_example 10001] POST_limit_effective[of body_example 10000]
    POST_limit_effective[of body_example 1]
  by (simp add: body_example_def)

text \<open>
  C10: a start or end time of 0, an empty filter pattern and an empty stream name are
  left out of the backend request, as if the field were absent; a search from the epoch
  sends the same request, and gives the same response, as a search with no lower bound.
\<close>

theorem POST_falsy_fields_omitted:
  "POST_params (body\<lparr>body_startTime := Some 0\<rparr>) = POST_params (body\<lparr>body_startTime := None\<rparr>)
   \<and> POST_params (body\<lparr>body_endTime := Some 0\<rparr>) = POST_params (body\<lparr>body_endTime := None\<rparr>)
   \<and> POST_params (body\<lparr>body_filterPattern := Some ''''\<rparr>)
       = POST_params (body\<lparr>body_filterPattern := None\<rparr>)
   \<and> POST_params (body\<lparr>body_logStreamName := Some ''''\<rparr>)
       = POST_params (body\<lparr>body_logStreamName := None\<rparr>)
   \<and> fle_startTime (POST_params (body\<lparr>body_startTime := Some 0\<rparr>)) = None
   \<and> fle_endTime (POST_params (body\<lparr>body_endTime := Some 0\<rparr>)) = None
   \<and> fle_filterPattern (POST_params (body\<lparr>body_filterPattern := Some ''''\<rparr>)) = None
   \<and> fle_logStreamNames (POST_params (body\<lparr>body_logStreamName := Some ''''\<rparr>)) = None
   \<and> POST e (body\<lparr>body_startTime := Some 0\<rparr>) send b
       = POST e (body\<lparr>body_startTime := None\<rparr>) send b"
proof -
  have p: "POST_params (body\<lparr>body_startTime := Some 0\<rparr>)
             = POST_params (body\<lparr>body_startTime := None\<rparr>)"
    by (simp add: POST_params_def truthy_number_def)
  have "POST e (body\<lparr>body_startTime := Some 0\<rparr>) send b
          = POST e (body\<lparr>body_startTime := None\<rparr>) send b"
    unfolding POST_def p by (rule refl)
  then show ?thesis
    by (simp add: POST_params_def truthy_number_def truthy_string_def)
qed

theorem POST_falsy_fields_omitted_witness:
  "fle_startTime (POST_params (body_example\<lparr>body_startTime := Some 0\<rparr>)) = None
   \<and> POST_params (body_example\<lparr>body_startTime := Some 0\<rparr>)
       = \<lparr> fle_logGroupName = Some ''/svc/a'', fle_limit = 50, fle_logStreamNames = Some [''s1''],
           fle_filterPattern = Some ''ERROR'', fle_startTime = None,
           fle_endTime = Some 1700000360000 \<rparr>"
  using POST_falsy_fields_omitted[of body_example]
  by (simp add: POST_params_def POST_limit_def truthy_number_def truthy_string_def body_example_def)

section \<open>Properties of the component\<close>

lemmas view_defs =
  run_def initial_world_def initial_viewer_def issue_def complete_def
  fetchLogGroups_start_def fetchLogGroups_done_def fetchLogStreams_start_def
  fetchLogStreams_done_def searchLogs_start_def searchLogs_done_def searchParams_def
  selectLogGroup_def after_group_change_def logGroupEffect_def selectLogStream_def
  clearFilters_def or_else_def truthy_string_def no_dates_def Let_def
  group_named_def stream_named_def

lemma run_snoc: "run g w (acts @ [a]) = step g (run g w acts) a"
  by (simp add: run_def)

lemma searched_group_a_state:
  "logEvents (view (run no_dates initial_world searched_group_a)) = [event_A]"
  "selectedLogGroup (view (run no_dates initial_world searched_group_a)) = Some ''/svc/a''"
  by (simp_all add: view_defs searched_group_a_def)

lemma issue_A_then_B_inflight:
  "inflight (run no_dates initial_world issue_A_then_B)
     = [SearchRequest search_A, SearchRequest search_B]"
  by (simp add: view_defs issue_A_then_B_def search_A_def search_B_def)

subsection \<open>Replies are applied in the order they arrive\<close>

text \<open>
  C1, as the specification states it, fails: the component keeps no generation counter,
  and a completion is applied whenever it arrives. After search A and then search B are
  issued, both in flight, B's reply arrives first and A's second: the stored event list
  is A's result.
\<close>

theorem stale_search_counterexample:
  "inflight (run no_dates initial_world issue_A_then_B)
     = [SearchRequest search_A, SearchRequest search_B]
   \<and> logEvents (view (run no_dates initial_world (issue_A_then_B @ B_then_A))) = [event_A]
   \<and> inflight (run no_dates initial_world (issue_A_then_B @ B_then_A)) = []"
  by (simp add: view_defs issue_A_then_B_def B_then_A_def search_A_def search_B_def)

text \<open>
  C1, amended: after every interleaving of actions, the successful reply to any request
  in flight is applied when it arrives, whatever has been issued since: the reply to a
  search becomes the stored event list, the reply to a stream fetch the stream list, the
  reply to the group fetch the group list. So after both of two overlapping searches have
  completed, the stored event list is the result of the one whose reply arrived last.
\<close>

theorem replies_applied_on_arrival:
  assumes "i < length (inflight (run getTime w acts))"
  shows "(case inflight (run getTime w acts) ! i of
            GroupsRequest \<Rightarrow>
              logGroups (view (run getTime w (acts @ [Deliver i (GroupsReply (Ok200 groups))])))
                = groups
          | StreamsRequest name \<Rightarrow>
              logStreams (view (run getTime w (acts @ [Deliver i (StreamsReply (Ok200 streams))])))
                = streams
          | SearchRequest body \<Rightarrow>
              logEvents (view (run getTime w (acts @ [Deliver i (EventsReply (Ok200 events))])))
                = events)"
  using assms
  by (simp add: run_snoc complete_def fetchLogGroups_done_def fetchLogStreams_done_def
        searchLogs_done_def split: request.splits)

theorem replies_applied_on_arrival_witness:
  "1 < length (inflight (run no_dates initial_world issue_A_then_B))
   \<and> inflight (run no_dates initial_world issue_A_then_B) ! 1 = SearchRequest search_B
   \<and> logEvents (view (run no_dates initial_world
        (issue_A_then_B @ [Deliver 1 (EventsReply (Ok200 [event_B]))]))) = [event_B]"
proof -
  have l: "1 < length (inflight (run no_dates initial_world issue_A_then_B))"
    using issue_A_then_B_inflight by simp
  show ?thesis
    using issue_A_then_B_inflight l replies_applied_on_arrival[OF l, of "[]" "[]" "[event_B]"]
    by simp
qed

subsection \<open>Selecting a group\<close>

text \<open>
  C2, as the specification states it, fails: a change of the selected group does not
  clear the stored event list. After a finished search in \<^verbatim>\<open>/svc/a\<close> the user selects
  \<^verbatim>\<open>/svc/b\<close>: the event found in \<^verbatim>\<open>/svc/a\<close> is still stored.
\<close>

theorem group_change_keeps_events_counterexample:
  "logEvents (view (run no_dates initial_world searched_group_a)) = [event_A]
   \<and> selectedLogGroup (view (run no_dates initial_world searched_group_a)) = Some ''/svc/a''
   \<and> selectedLogGroup (view (run no_dates initial_world
        (searched_group_a @ [ChangeLogGroup (Some ''/svc/b'')]))) = Some ''/svc/b''
   \<and> logEvents (view (run no_dates initial_world
        (searched_group_a @ [ChangeLogGroup (Some ''/svc/b'')]))) = [event_A]"
  by (simp add: view_defs searched_group_a_def)

lemma done_keeps_group:
  "selectedLogGroup (fetchLogGroups_done r1 st) = selectedLogGroup st"
  "selectedLogGroup (fetchLogStreams_done r2 st) = selectedLogGroup st"
  "selectedLogGroup (searchLogs_done r3 st) = selectedLogGroup st"
  by (simp_all add: fetchLogGroups_done_def fetchLogStreams_done_def searchLogs_done_def
        split: fetched.splits)

lemma complete_keeps_group:
  "complete rq rp st = Some st' \<Longrightarrow> selectedLogGroup st' = selectedLogGroup st"
  by (auto simp: complete_def done_keeps_group split: request.splits reply.splits)

text \<open>Only a selection in the group combobox and Clear Filters change the selected group.\<close>

lemma other_actions_keep_group:
  assumes "a \<noteq> ClickClearFilters" and "\<And>v. a \<noteq> ChangeLogGroup v"
  shows "selectedLogGroup (view (step getTime w a)) = selectedLogGroup (view w)"
proof (cases a)
  case Mount
  then show ?thesis
    by (simp add: Let_def issue_def fetchLogGroups_start_def logGroupEffect_def
          fetchLogStreams_start_def)
next
  case (ChangeLogGroup v)
  then show ?thesis using assms by simp
next
  case (ChangeLogStream v)
  then show ?thesis by (simp add: selectLogStream_def)
next
  case (SetFilterPattern s)
  then show ?thesis by simp
next
  case (SetStartTime s)
  then show ?thesis by simp
next
  case (SetEndTime s)
  then show ?thesis by simp
next
  case SubmitForm
  then show ?thesis by (simp add: issue_def searchLogs_start_def)
next
  case ClickClearFilters
  then show ?thesis using assms by simp
next
  case (Deliver i rp)
  then show ?thesis by (auto simp: complete_keeps_group split: option.splits)
qed

lemma searched_group_a_world:
  "inflight (run no_dates initial_world searched_group_a) = []"
  "logStreams (view (run no_dates initial_world searched_group_a)) = [stream_named ''s'']"
  by (simp_all add: view_defs searched_group_a_def)

text \<open>
  C2, amended: the selected group changes in two ways only, by a selection in the group
  combobox and by Clear Filters, and whenever it changes the component sets the current
  group (to the selected name, or to the empty name on Clear Filters). A selection in the
  combobox leaves the stored event list as it is; Clear Filters empties it, as part of
  its own reset. If the new group name is non-empty the component sends exactly one
  stream fetch, for that group, and keeps the stream list until the reply arrives; if the
  new name is empty it sends nothing, the stream list becomes empty and the current
  stream is cleared. (What happens to the current stream when the new name is non-empty
  is left out of the statement.)
\<close>

theorem group_change_effect:
  assumes "selectedLogGroup (view (step getTime w a)) \<noteq> selectedLogGroup (view w)"
  shows "(a = ClickClearFilters \<or> (\<exists>v. a = ChangeLogGroup v))
   \<and> selectedLogGroup (view (step getTime w a))
       = (case a of ChangeLogGroup v \<Rightarrow> Some (or_else v '''') | _ \<Rightarrow> Some '''')
   \<and> logEvents (view (step getTime w a))
       = (if a = ClickClearFilters then [] else logEvents (view w))
   \<and> (if truthy_string (selectedLogGroup (view (step getTime w a)))
       then inflight (step getTime w a)
              = inflight w
                  @ [StreamsRequest (or_else (selectedLogGroup (view (step getTime w a))) '''')]
            \<and> logStreams (view (step getTime w a)) = logStreams (view w)
       else inflight (step getTime w a) = inflight w
            \<and> logStreams (view (step getTime w a)) = []
            \<and> selectedLogStream (view (step getTime w a)) = Some '''')"
proof -
  have which: "a = ClickClearFilters \<or> (\<exists>v. a = ChangeLogGroup v)"
    using assms other_actions_keep_group[of a getTime w] by blast
  then show ?thesis
  proof
    assume c: "a = ClickClearFilters"
    then show ?thesis using assms
      by (auto simp: issue_def after_group_change_def logGroupEffect_def clearFilters_def
            fetchLogStreams_start_def truthy_string_def)
  next
    assume "\<exists>v. a = ChangeLogGroup v"
    then obtain v where c: "a = ChangeLogGroup v" by blast
    then show ?thesis using assms
      by (auto simp: issue_def selectLogGroup_def after_group_change_def logGroupEffect_def
            fetchLogStreams_start_def truthy_string_def or_else_def
            split: option.splits if_splits)
  qed
qed

theorem group_change_effect_witness:
  "selectedLogGroup (view (step no_dates (run no_dates initial_world searched_group_a)
        (ChangeLogGroup (Some ''/svc/b''))))
     \<noteq> selectedLogGroup (view (run no_dates initial_world searched_group_a))
   \<and> inflight (step no_dates (run no_dates initial_world searched_group_a)
        (ChangeLogGroup (Some ''/svc/b''))) = [StreamsRequest ''/svc/b'']
   \<and> logEvents (view (step no_dates (run no_dates initial_world searched_group_a)
        (ChangeLogGroup (Some ''/svc/b'')))) = [event_A]
   \<and> selectedLogGroup (view (step no_dates (run no_dates initial_world searched_group_a)
        ClickClearFilters))
     \<noteq> selectedLogGroup (view (run no_dates initial_world searched_group_a))
   \<and> inflight (step no_dates (run no_dates initial_world searched_group_a) ClickClearFilters) = []
   \<and> logStreams (view (step no_dates (run no_dates initial_world searched_group_a)
        ClickClearFilters)) = []
   \<and> logEvents (view (step no_dates (run no_dates initial_world searched_group_a)
        ClickClearFilters)) = []"
proof -
  let ?w = "run no_dates initial_world searched_group_a"
  have b: "selectedLogGroup (view (step no_dates ?w (ChangeLogGroup (Some ''/svc/b''))))
             \<noteq> selectedLogGroup (view ?w)"
    using searched_group_a_state(2)
    by (simp add: issue_def selectLogGroup_def after_group_change_def logGroupEffect_def
          fetchLogStreams_start_def truthy_string_def or_else_def)
  have c: "selectedLogGroup (view (step no_dates ?w ClickClearFilters))
             \<noteq> selectedLogGroup (view ?w)"
    using searched_group_a_state(2)
    by (simp add: issue_def after_group_change_def logGroupEffect_def clearFilters_def
          fetchLogStreams_start_def truthy_string_def)
  have sb: "selectedLogGroup (view (step no_dates ?w (ChangeLogGroup (Some ''/svc/b''))))
              = Some ''/svc/b''"
    using group_change_effect[OF b] by (simp add: or_else_def)
  have sc: "selectedLogGroup (view (step no_dates ?w ClickClearFilters)) = Some ''''"
    using group_change_effect[OF c] by simp
  show ?thesis
    using b c sb sc searched_group_a_state searched_group_a_world
      group_change_effect[OF b] group_change_effect[OF c]
    by (simp add: truthy_string_def or_else_def)
qed

subsection \<open>Searching without a group\<close>

text \<open>
  C9: in every state in which no group is selected (the selection is missing or empty),
  \<^verbatim>\<open>searchLogs\<close> sets the error message "Please select a log group" and returns: it sends
  no request, and the stored event list, the selection and every other field but the
  error message stay as they are.
\<close>

theorem searchLogs_without_group:
  assumes "\<not> truthy_string (selectedLogGroup st)"
  shows "searchLogs_start getTime st = (st\<lparr>error := ''Please select a log group''\<rparr>, [])
   \<and> error (fst (searchLogs_start getTime st)) = ''Please select a log group''
   \<and> logEvents (fst (searchLogs_start getTime st)) = logEvents st
   \<and> selectedLogGroup (fst (searchLogs_start getTime st)) = selectedLogGroup st
   \<and> selectedLogStream (fst (searchLogs_start getTime st)) = selectedLogStream st
   \<and> loading (fst (searchLogs_start getTime st)) = loading st"
  using assms by (simp add: searchLogs_start_def)

theorem searchLogs_without_group_witness:
  "\<not> truthy_string (selectedLogGroup initial_viewer)
   \<and> searchLogs_start no_dates initial_viewer
       = (initial_viewer\<lparr>error := ''Please select a log group''\<rparr>, [])"
proof -
  have a: "\<not> truthy_string (selectedLogGroup initial_viewer)"
    by (simp add: truthy_string_def initial_viewer_def)
  show ?thesis using a searchLogs_without_group[OF a, of no_dates] by simp
qed

subsection \<open>Filtering\<close>

















subsection \<open>Scrolling to the active index\<close>

lemma five_down_state: "logGroupActiveIndex five_down = 5" "logGroupOpen five_down"
  by (simp_all add: five_down_def onKeyDownLogGroup_def initial_viewer_def numeral_eq_Suc)

text \<open>
  C7, as the specification states it, fails: the active index is not clamped again when
  the number of items changes. With ten groups listed, five presses of the down arrow
  make the active index 5; the filter then narrows the list to two groups, the effect runs
  because the length changed, and \<^verbatim>\<open>scrollToIndex\<close> is called with 5, which is not below 2.
\<close>

theorem scroll_index_counterexample:
  "logGroupActiveIndex five_down = 5
   \<and> scrollLogGroupOnRender True (10, five_down) (2, five_down) = Some 5
   \<and> \<not> (5 < int 2)"
  using five_down_state by (simp add: scrollLogGroupOnRender_def scrollLogGroupEffect_def)

text \<open>
  C7, amended: when the number of items is 0 the effect does not scroll. When it scrolls,
  it passes the current active index, and the number of items is positive. The arrow keys
  clamp against the number of items of the render they are pressed in: pressed while the
  active index lies in \<open>[0, itemCount - 1]\<close>, they leave it there. The index is not clamped
  again when the number of items changes.
\<close>

theorem dropdown_scroll_index:
  "scrollLogGroupEffect element 0 st = None
   \<and> scrollLogStreamEffect element 0 st = None
   \<and> (scrollLogGroupEffect element count st = Some i \<longrightarrow> i = logGroupActiveIndex st \<and> 0 < count)
   \<and> (scrollLogStreamEffect element count st = Some i \<longrightarrow> i = logStreamActiveIndex st \<and> 0 < count)
   \<and> (0 < count \<and> 0 \<le> logGroupActiveIndex st \<and> logGroupActiveIndex st < int count \<longrightarrow>
        0 \<le> logGroupActiveIndex (onKeyDownLogGroup key count st)
        \<and> logGroupActiveIndex (onKeyDownLogGroup key count st) < int count)
   \<and> (0 < count \<and> 0 \<le> logStreamActiveIndex st \<and> logStreamActiveIndex st < int count \<longrightarrow>
        0 \<le> logStreamActiveIndex (onKeyDownLogStream key count st)
        \<and> logStreamActiveIndex (onKeyDownLogStream key count st) < int count)"
  by (auto simp: scrollLogGroupEffect_def scrollLogStreamEffect_def onKeyDownLogGroup_def
        onKeyDownLogStream_def split: if_splits)

theorem dropdown_scroll_index_witness:
  "scrollLogGroupEffect True 10 five_down = Some 5
   \<and> (0::nat) < 10 \<and> 0 \<le> logGroupActiveIndex five_down \<and> logGroupActiveIndex five_down < int 10
   \<and> logGroupActiveIndex (onKeyDownLogGroup ''ArrowDown'' 10 five_down) = 6
   \<and> scrollLogGroupEffect True 0 five_down = None"
  using five_down_state dropdown_scroll_index[of True five_down 10 5 "''ArrowDown''"]
  by (simp add: scrollLogGroupEffect_def onKeyDownLogGroup_def)

section \<open>Properties of useDebounce\<close>

lemma returns_settled_mount: "returns_settled v0 (useDebounce_mount t0 v0 d)"
  by (simp add: returns_settled_def useDebounce_mount_def)

lemma returns_settled_step: "returns_settled v0 st \<Longrightarrow> returns_settled v0 (db_step d st ev)"
  by (cases ev)
     (auto simp: returns_settled_def useDebounce_render_def useDebounce_timeout_def
        split: option.splits)

lemma returns_settled_run: "returns_settled v0 st \<Longrightarrow> returns_settled v0 (db_run d st evs)"
  unfolding db_run_def
  by (induction evs arbitrary: st) (simp_all add: returns_settled_step)

lemma settles_current_mount: "settles_current d (useDebounce_mount t0 v0 d)"
  by (simp add: settles_current_def useDebounce_mount_def)

lemma settles_current_step: "settles_current d st \<Longrightarrow> settles_current d (db_step d st ev)"
  by (cases ev)
     (auto simp: settles_current_def useDebounce_render_def useDebounce_timeout_def
        split: option.splits)

lemma settles_current_run: "settles_current d st \<Longrightarrow> settles_current d (db_run d st evs)"
  unfolding db_run_def
  by (induction evs arbitrary: st) (simp_all add: settles_current_step)

lemma timeout_settles:
  assumes "settles_current d st"
  shows "useDebounce_timeout s st = st
         \<or> (db_settled (useDebounce_timeout s st) = db_settled st @ [(s, db_value st)]
            \<and> debouncedValue (useDebounce_timeout s st) = db_value st
            \<and> db_since st + d \<le> s)"
  using assms
  by (auto simp: settles_current_def useDebounce_timeout_def split: option.splits)

lemma burst_last_input_ge:
  "burst d now t v evs \<Longrightarrow> t \<le> now \<Longrightarrow> t \<le> fst (last_input (t, v) evs)"
proof (induction d now t v evs rule: burst.induct)
  case (1 d now t v)
  then show ?case by simp
next
  case (2 d now t v s u evs)
  then show ?case by fastforce
next
  case (3 d now t v s evs)
  then show ?case by simp
qed

text \<open>Once the timeout has run, a burst holds no further input, and nothing is pending.\<close>

lemma burst_after_due:
  "burst d now t v evs \<Longrightarrow> t + d \<le> now \<Longrightarrow> db_timer st = None \<Longrightarrow>
   last_input (t, v) evs = (t, v) \<and> db_run d st evs = st"
proof (induction d now t v evs rule: burst.induct)
  case (1 d now t v)
  then show ?case by (simp add: db_run_def)
next
  case (2 d now t v s u evs)
  then show ?case by simp
next
  case (3 d now t v s evs)
  then have "useDebounce_timeout s st = st" by (simp add: useDebounce_timeout_def)
  then show ?case using 3 by (simp add: db_run_def)
qed

lemma burst_run:
  "burst d now t v evs \<Longrightarrow> t \<le> now \<Longrightarrow> db_timer st = Some (t + d, v) \<Longrightarrow> db_value st = v \<Longrightarrow>
   db_settled (db_run d st evs) =
     db_settled st @
       (case timers_from (fst (last_input (t, v) evs) + d) evs of
          [] \<Rightarrow> []
        | s # _ \<Rightarrow> [(s, snd (last_input (t, v) evs))])
   \<and> debouncedValue (db_run d st evs) =
       (case timers_from (fst (last_input (t, v) evs) + d) evs of
          [] \<Rightarrow> debouncedValue st
        | s # _ \<Rightarrow> snd (last_input (t, v) evs))"
proof (induction d now t v evs arbitrary: st rule: burst.induct)
  case (1 d now t v)
  then show ?case by (simp add: db_run_def)
next
  case (2 d now t v s u evs)
  let ?st = "useDebounce_render s u d st"
  have st': "db_timer ?st = Some (s + d, u)" "db_value ?st = u" "db_settled ?st = db_settled st"
    "debouncedValue ?st = debouncedValue st"
    using 2 by (simp_all add: useDebounce_render_def)
  have b: "burst d s s u evs" using "2.prems" by simp
  have "db_settled (db_run d ?st evs) =
     db_settled ?st @
       (case timers_from (fst (last_input (s, u) evs) + d) evs of
          [] \<Rightarrow> []
        | s' # _ \<Rightarrow> [(s', snd (last_input (s, u) evs))])
   \<and> debouncedValue (db_run d ?st evs) =
       (case timers_from (fst (last_input (s, u) evs) + d) evs of
          [] \<Rightarrow> debouncedValue ?st
        | s' # _ \<Rightarrow> snd (last_input (s, u) evs))"
    using "2.IH"[OF b _ st'(1) st'(2)] by simp
  then show ?case using st' by (simp add: db_run_def cong: list.case_cong)
next
  case (3 d now t v s evs)
  have b: "burst d s t v evs" and ns: "now \<le> s" using "3.prems" by simp_all
  show ?case
  proof (cases "t + d \<le> s")
    case True
    let ?st = "useDebounce_timeout s st"
    have st': "db_timer ?st = None" "db_settled ?st = db_settled st @ [(s, v)]"
      "debouncedValue ?st = v"
      using 3 True by (simp_all add: useDebounce_timeout_def)
    have r: "last_input (t, v) evs = (t, v)" "db_run d ?st evs = ?st"
      using burst_after_due[OF b True st'(1)] by simp_all
    show ?thesis using True r st' by (simp add: db_run_def cong: list.case_cong)
  next
    case False
    have same: "useDebounce_timeout s st = st"
      using 3 False by (simp add: useDebounce_timeout_def)
    have ts: "t \<le> s" using "3.prems" ns by simp
    have "t \<le> fst (last_input (t, v) evs)" using burst_last_input_ge[OF b ts] .
    then have skip: "\<not> fst (last_input (t, v) evs) + d \<le> s" using False by simp
    have "db_settled (db_run d st evs) =
     db_settled st @
       (case timers_from (fst (last_input (t, v) evs) + d) evs of
          [] \<Rightarrow> []
        | s # _ \<Rightarrow> [(s, snd (last_input (t, v) evs))])
   \<and> debouncedValue (db_run d st evs) =
       (case timers_from (fst (last_input (t, v) evs) + d) evs of
          [] \<Rightarrow> debouncedValue st
        | s # _ \<Rightarrow> snd (last_input (t, v) evs))"
      using "3.IH"[OF b ts "3.prems"(3) "3.prems"(4)] .
    then show ?thesis using same skip by (simp add: db_run_def cong: list.case_cong)
  qed
qed

lemma timers_from_ge: "s \<in> set (timers_from t evs) \<Longrightarrow> t \<le> s"
  by (induction t evs rule: timers_from.induct) (auto split: if_splits)

text \<open>
  C8: in a state \<open>st\<close> the hook has reached, with quiescence duration \<open>d\<close>, the value it
  returns is the value settled last (the initial value while nothing has settled). A new
  raw value \<open>v\<close> at time \<open>t\<close> replaces the pending timeout by one for \<open>v\<close>, due at
  \<open>t + d\<close>, and leaves the returned value and the record of settled values as they are. A
  timeout that runs at time \<open>s\<close> changes nothing, or settles the current raw value, which
  was set at least \<open>d\<close> before \<open>s\<close>, and makes it the returned value. When \<open>v\<close> is
  followed by a burst of raw values, each a new value less than \<open>d\<close> after the one
  before, with timers getting to run at any times in between and after, the returned
  value stays what it was and nothing is settled until the first time a timer runs at or
  after the last input's time plus \<open>d\<close>: at that time the last value of the burst is
  settled and returned, and nothing else is. So a burst settles at most one value, the
  last one, no earlier than \<open>d\<close> after the last input. (Every initial part of a burst is
  a burst, so this holds at every moment of it.)
\<close>

theorem useDebounce_coalesces:
  assumes "st = db_run d (useDebounce_mount t0 v0 d) pre"
    and "v \<noteq> db_value st"
    and "burst d t t v evs"
  shows "db_timer (db_step d st (Input t v)) = Some (t + d, v)
   \<and> debouncedValue (db_step d st (Input t v)) = debouncedValue st
   \<and> db_settled (db_step d st (Input t v)) = db_settled st
   \<and> debouncedValue st = (if db_settled st = [] then v0 else snd (last (db_settled st)))
   \<and> (useDebounce_timeout s st = st
        \<or> (db_settled (useDebounce_timeout s st) = db_settled st @ [(s, db_value st)]
           \<and> debouncedValue (useDebounce_timeout s st) = db_value st
           \<and> db_since st + d \<le> s))
   \<and> db_settled (db_run d st (Input t v # evs)) =
       db_settled st @
         (case timers_from (fst (last_input (t, v) evs) + d) evs of
            [] \<Rightarrow> []
          | s # _ \<Rightarrow> [(s, snd (last_input (t, v) evs))])
   \<and> debouncedValue (db_run d st (Input t v # evs)) =
         (case timers_from (fst (last_input (t, v) evs) + d) evs of
            [] \<Rightarrow> debouncedValue st
          | s # _ \<Rightarrow> snd (last_input (t, v) evs))
   \<and> length (db_settled (db_run d st (Input t v # evs))) \<le> Suc (length (db_settled st))
   \<and> list_all (\<lambda>(s, u). fst (last_input (t, v) evs) + d \<le> s \<and> u = snd (last_input (t, v) evs))
        (drop (length (db_settled st)) (db_settled (db_run d st (Input t v # evs))))"
proof -
  have inv: "settles_current d st"
    using assms(1) settles_current_run[OF settles_current_mount] by simp
  have ret: "returns_settled v0 st"
    using assms(1) returns_settled_run[OF returns_settled_mount] by simp
  then have ret': "debouncedValue st = (if db_settled st = [] then v0 else snd (last (db_settled st)))"
    by (simp add: returns_settled_def)
  let ?st = "db_step d st (Input t v)"
  have st': "db_timer ?st = Some (t + d, v)" "db_value ?st = v" "db_settled ?st = db_settled st"
    "debouncedValue ?st = debouncedValue st"
    using assms(2) by (simp_all add: useDebounce_render_def)
  have "db_settled (db_run d ?st evs) =
       db_settled ?st @
         (case timers_from (fst (last_input (t, v) evs) + d) evs of
            [] \<Rightarrow> []
          | s # _ \<Rightarrow> [(s, snd (last_input (t, v) evs))])
     \<and> debouncedValue (db_run d ?st evs) =
         (case timers_from (fst (last_input (t, v) evs) + d) evs of
            [] \<Rightarrow> debouncedValue ?st
          | s # _ \<Rightarrow> snd (last_input (t, v) evs))"
    using burst_run[OF assms(3) _ st'(1) st'(2)] by simp
  then have main: "db_settled (db_run d st (Input t v # evs)) =
       db_settled st @
         (case timers_from (fst (last_input (t, v) evs) + d) evs of
            [] \<Rightarrow> []
          | s # _ \<Rightarrow> [(s, snd (last_input (t, v) evs))])"
    and val: "debouncedValue (db_run d st (Input t v # evs)) =
         (case timers_from (fst (last_input (t, v) evs) + d) evs of
            [] \<Rightarrow> debouncedValue st
          | s # _ \<Rightarrow> snd (last_input (t, v) evs))"
    using st'(3) st'(4) by (simp_all add: db_run_def cong: list.case_cong)
  have one: "length (db_settled (db_run d st (Input t v # evs))) \<le> Suc (length (db_settled st))
    \<and> list_all (\<lambda>(s, u). fst (last_input (t, v) evs) + d \<le> s \<and> u = snd (last_input (t, v) evs))
        (drop (length (db_settled st)) (db_settled (db_run d st (Input t v # evs))))"
  proof (cases "timers_from (fst (last_input (t, v) evs) + d) evs")
    case Nil
    then show ?thesis using main by simp
  next
    case (Cons s' ss)
    then have "s' \<in> set (timers_from (fst (last_input (t, v) evs) + d) evs)" by simp
    then have "fst (last_input (t, v) evs) + d \<le> s'" by (rule timers_from_ge)
    then show ?thesis using main Cons by simp
  qed
  show ?thesis
    using st'(1) st'(3) st'(4) ret' timeout_settles[OF inv, of s] main val one by blast
qed

theorem useDebounce_coalesces_witness:
  "''a'' \<noteq> db_value (db_run 300 (useDebounce_mount 0 '''' 300) [Timer 300])
   \<and> burst 300 1000 1000 ''a'' typing_abc
   \<and> last_input (1000, ''a'') typing_abc = (1200, ''abc'')
   \<and> db_settled (db_run 300 (useDebounce_mount 0 '''' 300) [Timer 300]) = [(300, '''')]
   \<and> db_settled (db_run 300 (db_run 300 (useDebounce_mount 0 '''' 300) [Timer 300])
        (Input 1000 ''a'' # typing_abc)) = [(300, ''''), (1500, ''abc'')]
   \<and> debouncedValue (db_run 300 (db_run 300 (useDebounce_mount 0 '''' 300) [Timer 300])
        (Input 1000 ''a'' # typing_abc)) = ''abc''
   \<and> debouncedValue (db_run 300 (db_run 300 (useDebounce_mount 0 '''' 300) [Timer 300])
        (Input 1000 ''a'' # take 4 typing_abc)) = ''''"
proof -
  let ?st = "db_run 300 (useDebounce_mount 0 '''' 300) [Timer 300]"
  have s: "db_settled ?st = [(300, '''')]" "db_value ?st = ''''" "debouncedValue ?st = ''''"
    by (simp_all add: db_run_def useDebounce_mount_def useDebounce_timeout_def)
  have a: "''a'' \<noteq> db_value ?st" using s by simp
  have b: "burst 300 1000 1000 ''a'' typing_abc" by (simp add: typing_abc_def)
  have l: "last_input (1000, ''a'') typing_abc = (1200, ''abc'')" by (simp add: typing_abc_def)
  have t: "timers_from 1500 typing_abc = [1500, 1600]" by (simp add: typing_abc_def)
  have k: "take 4 typing_abc = [Input 1100 ''ab'', Timer 1150, Input 1200 ''abc'', Timer 1400]"
    by (simp add: typing_abc_def)
  have b4: "burst 300 1000 1000 ''a'' (take 4 typing_abc)" by (simp add: k)
  have l4: "last_input (1000, ''a'') (take 4 typing_abc) = (1200, ''abc'')" by (simp add: k)
  have t4: "timers_from 1500 (take 4 typing_abc) = []" by (simp add: k)
  show ?thesis
    using a b l s t l4 t4 useDebounce_coalesces[OF refl a b, of 0]
      useDebounce_coalesces[OF refl a b4, of 0]
    by simp
qed

end
